theory Spec2Isabelle
  imports Main
begin

section \<open>Data model of \<open>csvpackager.py\<close>\<close>

text \<open>
  A field descriptor is a Python dict from string keys to values. It is modelled as the
  list of its key/value pairs in insertion order; \<open>map_of\<close> reads a key. The values of
  the descriptors the packager handles are strings in every example of the source, and
  the packager only ever reads the key \<open>name\<close>; a descriptor with a value that is no
  string is outside the model. A \<open>string\<close> here is a list of characters, one for each
  character of the Python string.
\<close>

type_synonym field = "(string \<times> string) list"

datatype error =
    KeyError string
  | ValueError
  | NotImplementedError
  | FrictionlessException string

text \<open>\<open>field["name"]\<close>: the value under the key, \<open>KeyError\<close> when the key is missing.\<close>

definition getitem :: "field \<Rightarrow> string \<Rightarrow> error + string" where
  "getitem f k = (case map_of f k of None \<Rightarrow> Inl (KeyError k) | Some v \<Rightarrow> Inr v)"

text \<open>Whether the descriptor has the key \<open>name\<close>, that is, whether \<open>field["name"]\<close> returns.\<close>

definition has_name :: "field \<Rightarrow> bool" where
  "has_name f \<longleftrightarrow> map_of f ''name'' \<noteq> None"

text \<open>
  Python's \<open>==\<close> on two dicts: the same keys with the same values, whatever the
  insertion order.
\<close>

definition dict_eq :: "field \<Rightarrow> field \<Rightarrow> bool" where
  "dict_eq f g = list_all (\<lambda>k. map_of f k = map_of g k) (map fst f @ map fst g)"

text \<open>
  \<open>list.remove(x)\<close>: deletes the first item equal to \<open>x\<close>, \<open>ValueError\<close> when there
  is none.
\<close>

fun list_remove :: "field \<Rightarrow> field list \<Rightarrow> error + field list" where
  "list_remove x [] = Inl ValueError"
| "list_remove x (y # ys) =
     (if dict_eq y x then Inr ys
      else (case list_remove x ys of Inl e \<Rightarrow> Inl e | Inr zs \<Rightarrow> Inr (y # zs)))"

section \<open>The packager object and the list objects it shares\<close>

text \<open>
  Python lists are objects, and \<open>__init__\<close> stores the caller's list itself in
  \<open>self._fields\<close>, not a copy. The store holds the list objects allocated so far; a
  reference is an index into it.
\<close>

type_synonym ref = nat

type_synonym heap = "field list list"

record packager =
  p_file :: string
  p_metadata :: "(string \<times> string) list"
  p_fields :: "ref option"

text \<open>\<open>__init__\<close>: the text read from the stream, \<open>metadata or {}\<close>, the field list as given.\<close>

definition init :: "string \<Rightarrow> (string \<times> string) list option \<Rightarrow> ref option \<Rightarrow> packager" where
  "init text metadata flds =
     \<lparr>p_file = text,
      p_metadata = (case metadata of None \<Rightarrow> [] | Some m \<Rightarrow> if m = [] then [] else m),
      p_fields = flds\<rparr>"

section \<open>The schema library, as far as \<open>fields\<close> uses it\<close>

text \<open>
  \<open>Field.name\<close> of the schema library (frictionless 4) is the value under the key
  \<open>name\<close>. For a descriptor without that key it falls back to \<open>Field.type\<close>, which is
  the value under the key \<open>type\<close>, and \<open>any\<close> when that key is missing too. So a
  descriptor without a name is still reported under a name by \<open>Schema.field_names\<close>.
\<close>

definition field_name :: "field \<Rightarrow> string" where
  "field_name f =
     (case map_of f ''name'' of
        Some n \<Rightarrow> n
      | None \<Rightarrow> (case map_of f ''type'' of Some t \<Rightarrow> t | None \<Rightarrow> ''any''))"

text \<open>\<open>Schema.field_names\<close>: the names of the fields, in order.\<close>

definition field_names :: "field list \<Rightarrow> string list" where
  "field_names xs = map (field_name) xs"

text \<open>\<open>Schema.get_field(name)\<close>: the first field of that name, an exception when none.\<close>

fun get_field :: "string \<Rightarrow> field list \<Rightarrow> error + field" where
  "get_field n [] = Inl (FrictionlessException n)"
| "get_field n (f # fs) = (if field_name f = n then Inr f else get_field n fs)"

text \<open>\<open>Schema.remove_field(name)\<close>: \<open>get_field\<close>, then \<open>fields.remove\<close> of what it found.\<close>

definition remove_field :: "string \<Rightarrow> field list \<Rightarrow> error + field list" where
  "remove_field n xs =
     (case get_field n xs of Inl e \<Rightarrow> Inl e | Inr f \<Rightarrow> list_remove f xs)"

section \<open>\<open>CSVpackager.fields\<close>\<close>

definition generated_marker :: string where
  "generated_marker = ''Created by echemdb-converters.''"

definition create_field :: "string \<Rightarrow> field" where
  "create_field n = [(''name'', n), (''comment'', generated_marker)]"

definition create_fields :: "string list \<Rightarrow> field list" where
  "create_fields cols = map create_field cols"

text \<open>
  The two warnings. Neither string is an f-string in the source, so the braces are logged
  as they stand.
\<close>

definition warn_no_name :: string where
  "warn_no_name = ''Field {field} has no attribute `name`.''"

definition warn_added :: string where
  "warn_added = ''A field with name `{name}` was added to the schema.''"

text \<open>
  First loop: \<open>for field in schema.fields\<close>, removing from the very list it iterates.
  Python's list iterator keeps an index \<open>i\<close>, reads item \<open>i\<close> while \<open>i\<close> is below
  the current length, and then advances, whether or not the list has shrunk meanwhile.
  The result is the list left and the warnings logged.
\<close>

text \<open>For the termination of the loop: a successful \<open>list.remove\<close> shortens the list by one.\<close>

lemma list_remove_length: "list_remove x xs = Inr ys \<Longrightarrow> Suc (length ys) = length xs"
  by (induction xs arbitrary: ys) (auto split: if_splits sum.splits)

function remove_nameless :: "nat \<Rightarrow> field list \<Rightarrow> error + (field list \<times> string list)" where
  "remove_nameless i xs =
     (if i < length xs then
        (case getitem (xs ! i) ''name'' of
           Inr v \<Rightarrow> remove_nameless (Suc i) xs
         | Inl k \<Rightarrow>
            (case list_remove (xs ! i) xs of
               Inl e \<Rightarrow> Inl e
             | Inr xs' \<Rightarrow>
                (case remove_nameless (Suc i) xs' of
                   Inl e \<Rightarrow> Inl e
                 | Inr (ys, lg) \<Rightarrow> Inr (ys, warn_no_name # lg))))
      else Inr (xs, []))"
  by pat_completeness auto

termination
proof (relation "measure (\<lambda>(i, xs). length xs - i)")
qed (auto dest: list_remove_length)

text \<open>
  Second loop: over the field names read once before the loop, removing the field of
  each name that is no column name.
\<close>

fun remove_stale :: "string list \<Rightarrow> string list \<Rightarrow> field list \<Rightarrow> error + field list" where
  "remove_stale cols [] xs = Inr xs"
| "remove_stale cols (n # ns) xs =
     (if n \<notin> set cols then
        (case remove_field n xs of
           Inl e \<Rightarrow> Inl e
         | Inr xs' \<Rightarrow> remove_stale cols ns xs')
      else remove_stale cols ns xs)"

text \<open>
  Third loop: over the column names, appending a created field for each name that is
  not among the field names of the schema at that moment, and logging a warning.
\<close>

fun add_missing :: "string list \<Rightarrow> field list \<Rightarrow> field list \<times> string list" where
  "add_missing [] xs = (xs, [])"
| "add_missing (n # ns) xs =
     (if n \<notin> set (field_names xs) then
        (case add_missing ns (xs @ [create_field n]) of
           (ys, lg) \<Rightarrow> (ys, warn_added # lg))
      else add_missing ns xs)"

text \<open>
  Lines 145 to 171 of the property \<open>fields\<close>: the three passes in turn, on the fresh
  list of \<open>Field\<close> objects made from the stored descriptors. The result is the list of
  fields of the schema and the warnings logged, in order.
\<close>

definition reconcile :: "string list \<Rightarrow> field list \<Rightarrow> error + (field list \<times> string list)" where
  "reconcile cols fs =
     (case remove_nameless 0 fs of
        Inl e \<Rightarrow> Inl e
      | Inr (xs1, lg1) \<Rightarrow>
         (case remove_stale cols (field_names xs1) xs1 of
            Inl e \<Rightarrow> Inl e
          | Inr xs2 \<Rightarrow>
             (case add_missing cols xs2 of
                (xs3, lg3) \<Rightarrow> Inr (xs3, lg1 @ lg3))))"

text \<open>
  The property \<open>fields\<close>, on the value of the stored field list (\<open>None\<close> when the
  caller gave none) and the column names of the parsed table. \<open>not self._fields\<close> holds
  for \<open>None\<close> and for the empty list.
\<close>

definition fields :: "string list \<Rightarrow> field list option \<Rightarrow> error + (field list \<times> string list)" where
  "fields cols fo =
     (case fo of
        None \<Rightarrow> Inr (create_fields cols, [])
      | Some fs \<Rightarrow>
         if fs = [] then Inr (create_fields cols, [])
         else reconcile cols fs)"

section \<open>The property \<open>fields\<close> on the store of list objects\<close>

definition new_list :: "field list \<Rightarrow> heap \<Rightarrow> ref \<times> heap" where
  "new_list xs h = (length h, h @ [xs])"

text \<open>
  The property \<open>fields\<close> on the store. \<open>create_fields\<close> builds a new list. Otherwise
  the list comprehension of line 148 builds a new list from the items of the stored one,
  the three passes change that new list in place, and its reference is returned. No
  attribute of \<open>self\<close> is assigned. When an exception leaves the property, the new list
  is a local that nothing refers to any more.
\<close>

definition fields_obj :: "string list \<Rightarrow> packager \<Rightarrow> heap \<Rightarrow> (error + ref \<times> string list) \<times> heap" where
  "fields_obj cols p h =
     (case p_fields p of
        None \<Rightarrow> (case new_list (create_fields cols) h of (r, h') \<Rightarrow> (Inr (r, []), h'))
      | Some a \<Rightarrow>
         if h ! a = [] then
           (case new_list (create_fields cols) h of (r, h') \<Rightarrow> (Inr (r, []), h'))
         else
           (case new_list (h ! a) h of
              (s, h1) \<Rightarrow>
                (case reconcile cols (h1 ! s) of
                   Inl e \<Rightarrow> (Inl e, h1)
                 | Inr (xs, lg) \<Rightarrow> (Inr (s, lg), h1[s := xs]))))"

text \<open>A packager is well formed on a store when its field list, if any, is allocated there.\<close>

definition valid_packager :: "packager \<Rightarrow> heap \<Rightarrow> bool" where
  "valid_packager p h = (case p_fields p of None \<Rightarrow> True | Some a \<Rightarrow> a < length h)"

section \<open>Header lines, data block, delimiter and decimal separator\<close>

text \<open>\<open>header_lines\<close> of the base class. Device subclasses override it.\<close>

definition header_lines :: "packager \<Rightarrow> nat" where
  "header_lines p = 0"

text \<open>
  \<open>StringIO(text).readlines()\<close>: the lines of the text, each with its line feed; the
  last line may lack one.
\<close>

fun readlines :: "string \<Rightarrow> string list" where
  "readlines [] = []"
| "readlines (c # cs) =
     (if c = CHR 0x0A then [c] # readlines cs
      else (case readlines cs of [] \<Rightarrow> [ [c] ] | l # ls \<Rightarrow> (c # l) # ls))"

text \<open>
  The property \<open>data\<close>: the lines from index \<open>header_lines + 1\<close> on, joined. The
  argument \<open>hl\<close> is the value of \<open>self.header_lines\<close>.
\<close>

definition data :: "nat \<Rightarrow> packager \<Rightarrow> string" where
  "data hl p = concat (drop (hl + 1) (readlines (p_file p)))"

text \<open>
  The property \<open>delimiter\<close>. The sniffer of the external library, with the read of the
  attribute \<open>delimiter\<close> of its answer, is the parameter \<open>sniff\<close>.
\<close>

definition delimiter :: "(string \<Rightarrow> 'r) \<Rightarrow> nat \<Rightarrow> packager \<Rightarrow> 'r" where
  "delimiter sniff hl p = sniff (take 2 (data hl p))"

text \<open>
  The data block in the words of the specification: the text after the header lines and
  after the line of the column names, so after \<open>hl + 1\<close> lines.
\<close>

fun drop_line :: "string \<Rightarrow> string" where
  "drop_line [] = []"
| "drop_line (c # cs) = (if c = CHR 0x0A then cs else drop_line cs)"

definition data_block_spec :: "nat \<Rightarrow> string \<Rightarrow> string" where
  "data_block_spec hl text = (drop_line ^^ (hl + 1)) text"

text \<open>The property \<open>decimal\<close> of the base class.\<close>

definition decimal :: "packager \<Rightarrow> error + string" where
  "decimal p = Inl NotImplementedError"

text \<open>
  Modelled from the spec: the device subclasses are not in the source. The specification
  says that a device variant supplies a literal separator \<open>sep\<close> in place of the
  property \<open>decimal\<close>.
\<close>

definition device_decimal :: "string \<Rightarrow> packager \<Rightarrow> error + string" where
  "device_decimal sep p = Inr sep"

section \<open>\<open>CSVpackager.get_packager\<close>\<close>

text \<open>
  The class imported from the module \<open>eclabpackager\<close>, which is not in the source, is
  the parameter \<open>eclab\<close>. The device is \<open>None\<close> by default, and the f-string prints
  that as \<open>None\<close>. The character \<open>0x27\<close> is the apostrophe.
\<close>

definition get_packager :: "'c \<Rightarrow> string option \<Rightarrow> error + 'c" where
  "get_packager eclab device =
     (if device = Some ''eclab'' then Inr eclab
      else Inl (KeyError (''Device wth name '' @ [CHR 0x27]
                  @ (case device of None \<Rightarrow> ''None'' | Some d \<Rightarrow> d)
                  @ [CHR 0x27] @ '' is unknown to the packager'' @ [CHR 0x27] @ ''.'')))"

section \<open>The table\<close>

text \<open>
  The property \<open>df\<close> calls the loader of the dataframe library on a new stream over
  the stored text. The loader is the parameter \<open>read_csv\<close>; the calls made to it are
  recorded in a trace, so that the number of parses can be stated.
\<close>

datatype call = ReadCsv string nat

definition df :: "(string \<Rightarrow> nat \<Rightarrow> 'tbl) \<Rightarrow> nat \<Rightarrow> packager \<Rightarrow> call list \<Rightarrow> 'tbl \<times> call list" where
  "df read_csv hl p tr = (read_csv (p_file p) hl, tr @ [ReadCsv (p_file p) hl])"

text \<open>The property \<open>column_names\<close>: the column labels of \<open>self.df\<close>.\<close>

definition column_names ::
  "('tbl \<Rightarrow> string list) \<Rightarrow> (string \<Rightarrow> nat \<Rightarrow> 'tbl) \<Rightarrow> nat \<Rightarrow> packager \<Rightarrow> call list \<Rightarrow> string list \<times> call list" where
  "column_names columns read_csv hl p tr =
     (case df read_csv hl p tr of (t, tr') \<Rightarrow> (columns t, tr'))"

section \<open>Facts about dicts and \<open>list.remove\<close>\<close>

lemma dict_eq_iff: "dict_eq f g \<longleftrightarrow> map_of f = map_of g"
proof
  assume h: "dict_eq f g"
  show "map_of f = map_of g"
  proof
    fix k
    show "map_of f k = map_of g k"
    proof (cases "k \<in> fst ` set f \<union> fst ` set g")
      case True
      with h show ?thesis by (auto simp: dict_eq_def list_all_iff)
    next
      case False
      then have "map_of f k = None" "map_of g k = None"
        by (simp_all add: map_of_eq_None_iff)
      then show ?thesis by simp
    qed
  qed
next
  assume "map_of f = map_of g"
  then show "dict_eq f g" by (simp add: dict_eq_def list_all_iff)
qed

lemma dict_eq_refl: "dict_eq f f"
  by (simp add: dict_eq_iff)

lemma dict_eq_field_name: "dict_eq f g \<Longrightarrow> field_name f = field_name g"
proof -
  assume "dict_eq f g"
  then have h: "map_of f = map_of g" by (simp add: dict_eq_iff)
  show ?thesis by (simp add: field_name_def h split: option.splits)
qed

lemma getitem_has_name: "(\<exists>v. getitem f ''name'' = Inr v) \<longleftrightarrow> has_name f"
  by (auto simp: getitem_def has_name_def split: option.splits)

lemma field_name_create_field: "field_name (create_field n) = n"
  by (simp add: field_name_def create_field_def)

lemma has_name_create_field: "has_name (create_field n)"
  by (simp add: has_name_def create_field_def)

lemma list_remove_member: "x \<in> set xs \<Longrightarrow> \<exists>ys. list_remove x xs = Inr ys"
  by (induction xs) (auto simp: dict_eq_refl)

lemma list_remove_nameless:
  "list_remove x xs = Inr ys \<Longrightarrow> \<not> has_name x \<Longrightarrow> filter has_name ys = filter has_name xs"
proof (induction xs arbitrary: ys)
  case Nil
  then show ?case by simp
next
  case (Cons y xs)
  show ?case
  proof (cases "dict_eq y x")
    case True
    then have "\<not> has_name y" using Cons.prems(2) by (simp add: dict_eq_iff has_name_def)
    with True Cons.prems show ?thesis by auto
  next
    case False
    with Cons show ?thesis by (auto split: sum.splits)
  qed
qed

lemma list_remove_subset: "list_remove x xs = Inr ys \<Longrightarrow> set ys \<subseteq> set xs"
  by (induction xs arbitrary: ys) (auto split: if_splits sum.splits)

section \<open>The first loop\<close>

text \<open>
  The first loop never raises: the item it removes is in the list. It keeps every field
  that has a name, in order, and logs its warning once for each item it removes. It may
  leave fields without a name behind.
\<close>

lemma remove_nameless_total:
  "\<exists>ys. remove_nameless i xs = Inr (ys, replicate (length xs - length ys) warn_no_name)
      \<and> length ys \<le> length xs
      \<and> filter has_name ys = filter has_name xs
      \<and> set ys \<subseteq> set xs"
proof (induction i xs rule: remove_nameless.induct)
  case (1 i xs)
  show ?case
  proof (cases "i < length xs")
    case False
    then show ?thesis by simp
  next
    case lt: True
    show ?thesis
    proof (cases "getitem (xs ! i) ''name''")
      case (Inr v)
      with lt 1(2) [OF lt Inr] show ?thesis by simp
    next
      case (Inl k)
      then have nn: "\<not> has_name (xs ! i)" using getitem_has_name [of "xs ! i"] by auto
      from lt obtain xs' where r: "list_remove (xs ! i) xs = Inr xs'"
        using list_remove_member [of "xs ! i" xs] by auto
      have len: "Suc (length xs') = length xs" by (rule list_remove_length [OF r])
      from 1(1) [OF lt Inl r] obtain ys where
        h: "remove_nameless (Suc i) xs' = Inr (ys, replicate (length xs' - length ys) warn_no_name)"
           "length ys \<le> length xs'"
           "filter has_name ys = filter has_name xs'"
           "set ys \<subseteq> set xs'" by blast
      have cnt: "Suc (length xs' - length ys) = length xs - length ys"
        using len h(2) by arith
      have "remove_nameless i xs
              = Inr (ys, warn_no_name # replicate (length xs' - length ys) warn_no_name)"
        using lt Inl r h(1) by simp
      then have "remove_nameless i xs = Inr (ys, replicate (length xs - length ys) warn_no_name)"
        using cnt by (simp flip: replicate_Suc)
      moreover have "length ys \<le> length xs" using len h(2) by arith
      moreover have "filter has_name ys = filter has_name xs"
        using h(3) list_remove_nameless [OF r nn] by simp
      moreover have "set ys \<subseteq> set xs" using h(4) list_remove_subset [OF r] by blast
      ultimately show ?thesis by blast
    qed
  qed
qed

lemma remove_nameless_all_named:
  "\<forall>f \<in> set xs. has_name f \<Longrightarrow> remove_nameless i xs = Inr (xs, [])"
proof (induction i xs rule: remove_nameless.induct)
  case (1 i xs)
  show ?case
  proof (cases "i < length xs")
    case False
    then show ?thesis by simp
  next
    case lt: True
    then have "has_name (xs ! i)" using 1(3) by simp
    then obtain v where v: "getitem (xs ! i) ''name'' = Inr v"
      using getitem_has_name [of "xs ! i"] by auto
    from 1(2) [OF lt v 1(3)] lt v show ?thesis by simp
  qed
qed

section \<open>The second loop\<close>

text \<open>
  When the first name that is no column name among the field names is \<open>n\<close>,
  \<open>remove_field\<close> finds a field of that name and removes exactly the first field whose
  name is no column name.
\<close>

lemma remove_field_stale_head:
  "filter (\<lambda>n. n \<notin> set cols) (field_names xs) = n # rest \<Longrightarrow>
   \<exists>xs'. remove_field n xs = Inr xs'
      \<and> filter (\<lambda>n. n \<notin> set cols) (field_names xs') = rest
      \<and> filter (\<lambda>f. field_name f \<in> set cols) xs' = filter (\<lambda>f. field_name f \<in> set cols) xs"
proof (induction xs)
  case Nil
  then show ?case by (simp add: field_names_def)
next
  case (Cons f fs)
  show ?case
  proof (cases "field_name f \<in> set cols")
    case False
    with Cons.prems have "field_name f = n" "filter (\<lambda>n. n \<notin> set cols) (field_names fs) = rest"
      by (simp_all add: field_names_def)
    with False show ?thesis
      by (simp add: remove_field_def dict_eq_refl)
  next
    case True
    with Cons.prems have tl: "filter (\<lambda>n. n \<notin> set cols) (field_names fs) = n # rest"
      by (simp add: field_names_def)
    then have "n \<in> set (filter (\<lambda>n. n \<notin> set cols) (field_names fs))" by simp
    then have nc: "n \<notin> set cols" by simp
    with True have ne: "field_name f \<noteq> n" by auto
    from Cons.IH [OF tl] obtain fs' where
      r: "remove_field n fs = Inr fs'"
      and a: "filter (\<lambda>n. n \<notin> set cols) (field_names fs') = rest"
      and b: "filter (\<lambda>f. field_name f \<in> set cols) fs' = filter (\<lambda>f. field_name f \<in> set cols) fs"
      by blast
    from r obtain g where g: "get_field n fs = Inr g" "list_remove g fs = Inr fs'"
      by (auto simp: remove_field_def split: sum.splits)
    have gn: "field_name g = n"
      using g(1) by (induction fs) (auto split: if_splits)
    have "\<not> dict_eq f g" using dict_eq_field_name [of f g] ne gn by auto
    with g ne have "remove_field n (f # fs) = Inr (f # fs')"
      by (simp add: remove_field_def)
    with a b True show ?thesis by (simp add: field_names_def)
  qed
qed

text \<open>
  The loop invariant: the names still to visit that are no column names are the names of
  the fields still to remove, in the same order. So no lookup fails, and the loop leaves
  the fields whose name is a column name.
\<close>

lemma remove_stale_filter:
  "filter (\<lambda>n. n \<notin> set cols) ns = filter (\<lambda>n. n \<notin> set cols) (field_names xs) \<Longrightarrow>
   remove_stale cols ns xs = Inr (filter (\<lambda>f. field_name f \<in> set cols) xs)"
proof (induction ns arbitrary: xs)
  case Nil
  then have "filter (\<lambda>f. field_name f \<notin> set cols) xs = []"
    by (simp add: field_names_def filter_map comp_def)
  then have "\<forall>f \<in> set xs. field_name f \<in> set cols"
    by (simp add: filter_empty_conv)
  then show ?case by simp
next
  case (Cons n ns)
  show ?case
  proof (cases "n \<in> set cols")
    case True
    with Cons show ?thesis by simp
  next
    case False
    with Cons.prems have "filter (\<lambda>n. n \<notin> set cols) (field_names xs) = n # filter (\<lambda>n. n \<notin> set cols) ns"
      by simp
    from remove_field_stale_head [OF this] obtain xs' where
      r: "remove_field n xs = Inr xs'"
      and a: "filter (\<lambda>n. n \<notin> set cols) (field_names xs') = filter (\<lambda>n. n \<notin> set cols) ns"
      and b: "filter (\<lambda>f. field_name f \<in> set cols) xs' = filter (\<lambda>f. field_name f \<in> set cols) xs"
      by blast
    from Cons.IH [OF a [symmetric] ] r b False show ?thesis by simp
  qed
qed

section \<open>The third loop\<close>

text \<open>
  The third loop appends a created field for each column name that no field carries,
  once for each such name, and logs its warning once for each field it appends. When the
  column names are distinct, the appended fields follow the column order.
\<close>

lemma add_missing_created:
  "\<exists>ms. add_missing cols xs = (xs @ map create_field ms, replicate (length ms) warn_added)
      \<and> distinct ms
      \<and> set ms = set cols - set (field_names xs)
      \<and> (distinct cols \<longrightarrow> ms = filter (\<lambda>c. c \<notin> set (field_names xs)) cols)"
proof (induction cols arbitrary: xs)
  case Nil
  then show ?case by simp
next
  case (Cons n ns)
  show ?case
  proof (cases "n \<in> set (field_names xs)")
    case True
    from Cons.IH [of xs] obtain ms where
      h: "add_missing ns xs = (xs @ map create_field ms, replicate (length ms) warn_added)"
         "distinct ms" "set ms = set ns - set (field_names xs)"
         "distinct ns \<longrightarrow> ms = filter (\<lambda>c. c \<notin> set (field_names xs)) ns" by blast
    have "add_missing (n # ns) xs = (xs @ map create_field ms, replicate (length ms) warn_added)"
      using True h(1) by simp
    moreover have "set ms = set (n # ns) - set (field_names xs)"
      using True h(3) by auto
    moreover have "distinct (n # ns) \<longrightarrow> ms = filter (\<lambda>c. c \<notin> set (field_names xs)) (n # ns)"
      using True h(4) by simp
    ultimately show ?thesis using h(2) by blast
  next
    case False
    have names: "set (field_names (xs @ [create_field n])) = insert n (set (field_names xs))"
      by (simp add: field_names_def field_name_create_field)
    from Cons.IH [of "xs @ [create_field n]"] obtain ms where
      h: "add_missing ns (xs @ [create_field n])
            = ((xs @ [create_field n]) @ map create_field ms, replicate (length ms) warn_added)"
         "distinct ms" "set ms = set ns - set (field_names (xs @ [create_field n]))"
         "distinct ns \<longrightarrow> ms = filter (\<lambda>c. c \<notin> set (field_names (xs @ [create_field n]))) ns"
      by blast
    have "add_missing (n # ns) xs
            = (xs @ map create_field (n # ms), replicate (length (n # ms)) warn_added)"
      using False h(1) by simp
    moreover have "distinct (n # ms)" using h(2) h(3) names by auto
    moreover have "set (n # ms) = set (n # ns) - set (field_names xs)"
      using False h(3) names by auto
    moreover have "distinct (n # ns) \<longrightarrow> n # ms = filter (\<lambda>c. c \<notin> set (field_names xs)) (n # ns)"
    proof
      assume d: "distinct (n # ns)"
      then have "filter (\<lambda>c. c \<notin> set (field_names (xs @ [create_field n]))) ns
               = filter (\<lambda>c. c \<notin> set (field_names xs)) ns"
        by (intro filter_cong) (auto simp: names)
      with d h(4) False show "n # ms = filter (\<lambda>c. c \<notin> set (field_names xs)) (n # ns)"
        by simp
    qed
    ultimately show ?thesis by blast
  qed
qed

section \<open>The three passes together\<close>

text \<open>
  The three passes never raise. With \<open>xs1\<close> the list the first loop leaves, the schema is
  the fields of \<open>xs1\<close> whose name is a column name, followed by a created field for each
  column name none of them carries. The log is one warning for each item the first loop
  has removed, then one for each created field. The second loop logs nothing.
\<close>

lemma reconcile_total:
  "\<exists>xs1 ms.
       remove_nameless 0 fs = Inr (xs1, replicate (length fs - length xs1) warn_no_name)
     \<and> filter has_name xs1 = filter has_name fs
     \<and> set xs1 \<subseteq> set fs
     \<and> distinct ms
     \<and> set ms = set cols - set (field_names (filter (\<lambda>f. field_name f \<in> set cols) xs1))
     \<and> (distinct cols \<longrightarrow>
          ms = filter (\<lambda>c. c \<notin> set (field_names (filter (\<lambda>f. field_name f \<in> set cols) xs1))) cols)
     \<and> reconcile cols fs =
         Inr (filter (\<lambda>f. field_name f \<in> set cols) xs1 @ map create_field ms,
              replicate (length fs - length xs1) warn_no_name @ replicate (length ms) warn_added)"
proof -
  from remove_nameless_total [of 0 fs] obtain xs1 where
    a: "remove_nameless 0 fs = Inr (xs1, replicate (length fs - length xs1) warn_no_name)"
       "filter has_name xs1 = filter has_name fs" "set xs1 \<subseteq> set fs" by blast
  let ?ys = "filter (\<lambda>f. field_name f \<in> set cols) xs1"
  have b: "remove_stale cols (field_names xs1) xs1 = Inr ?ys"
    by (rule remove_stale_filter) simp
  from add_missing_created [of cols ?ys] obtain ms where
    c: "add_missing cols ?ys = (?ys @ map create_field ms, replicate (length ms) warn_added)"
       "distinct ms" "set ms = set cols - set (field_names ?ys)"
       "distinct cols \<longrightarrow> ms = filter (\<lambda>c. c \<notin> set (field_names ?ys)) cols" by blast
  have "reconcile cols fs =
         Inr (?ys @ map create_field ms,
              replicate (length fs - length xs1) warn_no_name @ replicate (length ms) warn_added)"
    using a(1) b c(1) by (simp add: reconcile_def)
  with a c(2,3,4) show ?thesis by blast
qed

text \<open>
  What \<open>fields\<close> returns when the fields the first loop skips cannot matter: when every
  supplied entry has a name or, if not, is reported by the library under a name that is
  no column name. The schema is then the supplied entries with a name that is a column
  name, in their order, followed by a created field for each column without one, in
  column order.
\<close>

lemma fields_reconciled:
  assumes "distinct cols" and "\<forall>f \<in> set fs. has_name f \<or> field_name f \<notin> set cols"
  shows "\<exists>lg. fields cols (Some fs) =
           Inr (filter (\<lambda>f. has_name f \<and> field_name f \<in> set cols) fs
                @ map create_field
                    (filter (\<lambda>c. c \<notin> set (field_names
                        (filter (\<lambda>f. has_name f \<and> field_name f \<in> set cols) fs))) cols),
                lg)"
proof (cases "fs = []")
  case True
  then show ?thesis
    by (simp add: fields_def create_fields_def field_names_def)
next
  case False
  let ?keep = "\<lambda>f. has_name f \<and> field_name f \<in> set cols"
  from reconcile_total [of fs cols] obtain xs1 ms where
    b: "filter has_name xs1 = filter has_name fs"
    and s: "set xs1 \<subseteq> set fs"
    and m: "distinct cols \<longrightarrow>
          ms = filter (\<lambda>c. c \<notin> set (field_names (filter (\<lambda>f. field_name f \<in> set cols) xs1))) cols"
    and c: "reconcile cols fs =
         Inr (filter (\<lambda>f. field_name f \<in> set cols) xs1 @ map create_field ms,
              replicate (length fs - length xs1) warn_no_name @ replicate (length ms) warn_added)"
    by blast
  have "filter (\<lambda>f. field_name f \<in> set cols) xs1
          = filter (\<lambda>f. field_name f \<in> set cols) (filter has_name xs1)"
    using assms(2) s by (auto simp: filter_filter intro!: filter_cong)
  also have "\<dots> = filter (\<lambda>f. field_name f \<in> set cols) (filter has_name fs)"
    by (simp only: b)
  also have "\<dots> = filter ?keep fs"
    by (auto simp: filter_filter intro: filter_cong)
  finally have k: "filter (\<lambda>f. field_name f \<in> set cols) xs1 = filter ?keep fs" .
  from False c k m assms(1) show ?thesis by (simp add: fields_def)
qed

text \<open>
  Under the same condition a field without a name that the first loop has left behind is
  removed by the second, so none reaches the schema.
\<close>

lemma fields_nameless_dropped_when_fallback_is_no_column:
  assumes "\<forall>f \<in> set fs. has_name f \<or> field_name f \<notin> set cols"
    and "fields cols (Some fs) = Inr (xs, lg)"
  shows "\<forall>f \<in> set xs. has_name f"
proof (cases "fs = []")
  case True
  with assms(2) show ?thesis
    by (auto simp: fields_def create_fields_def has_name_create_field)
next
  case False
  from reconcile_total [of fs cols] obtain xs1 ms where
    s: "set xs1 \<subseteq> set fs"
    and c: "reconcile cols fs =
         Inr (filter (\<lambda>f. field_name f \<in> set cols) xs1 @ map create_field ms,
              replicate (length fs - length xs1) warn_no_name @ replicate (length ms) warn_added)"
    by blast
  with False assms(2) have
    "xs = filter (\<lambda>f. field_name f \<in> set cols) xs1 @ map create_field ms"
    by (simp add: fields_def)
  with s assms(1) show ?thesis
    by (auto simp: has_name_create_field)
qed

section \<open>The store\<close>

text \<open>
  On a store where the packager is well formed, \<open>fields\<close> allocates exactly one new
  list object, holding what \<open>fields\<close> on values returns for the value of the stored list,
  and returns its reference.
\<close>

lemma fields_obj_value:
  assumes "valid_packager p h"
  shows "\<exists>xs lg. fields cols (map_option ((!) h) (p_fields p)) = Inr (xs, lg)
           \<and> fields_obj cols p h = (Inr (length h, lg), h @ [xs])"
proof (cases "p_fields p")
  case None
  then show ?thesis by (simp add: fields_def fields_obj_def new_list_def)
next
  case (Some a)
  show ?thesis
  proof (cases "h ! a = []")
    case True
    with Some show ?thesis by (simp add: fields_def fields_obj_def new_list_def)
  next
    case False
    from reconcile_total [of "h ! a" cols] obtain xs lg where
      r: "reconcile cols (h ! a) = Inr (xs, lg)" by blast
    with Some False show ?thesis
      by (simp add: fields_def fields_obj_def new_list_def)
  qed
qed

section \<open>The lines of a text\<close>

lemma concat_readlines: "concat (readlines s) = s"
  by (induction s) (auto split: list.splits)

lemma readlines_drop_line: "readlines (drop_line s) = tl (readlines s)"
  by (induction s) (auto split: list.splits)

lemma readlines_drop_lines: "readlines ((drop_line ^^ n) s) = drop n (readlines s)"
  by (induction n) (simp_all add: readlines_drop_line drop_Suc tl_drop)

section \<open>The examples of the docstring\<close>

text \<open>
  The third example in the docstring of \<open>fields\<close>: the columns \<open>t\<close>, \<open>E\<close>, \<open>j\<close>, and
  the entries \<open>E\<close>, \<open>j\<close>, \<open>x\<close> and one without a name. The model returns the list the
  docstring shows.
\<close>

lemma fields_docstring_example:
  "fields [''t'', ''E'', ''j'']
     (Some [ [(''name'', ''E''), (''unit'', ''V''), (''reference'', ''RHE'')],
            [(''name'', ''j''), (''unit'', ''uA / cm2'')],
            [(''name'', ''x'')],
            [(''foo'', ''bar'')] ])
   = Inr ([ [(''name'', ''E''), (''unit'', ''V''), (''reference'', ''RHE'')],
           [(''name'', ''j''), (''unit'', ''uA / cm2'')],
           [(''name'', ''t''), (''comment'', ''Created by echemdb-converters.'')] ],
          [warn_no_name, warn_added])"
  by (simp add: fields_def reconcile_def getitem_def dict_eq_def field_names_def
        field_name_def remove_field_def create_field_def generated_marker_def)

text \<open>
  Two entries without a name and no column called \<open>any\<close>: the first loop skips the
  second entry, the library reports it under the name \<open>any\<close>, and the second loop
  removes it without a warning. The schema is right; one warning is logged for two
  entries dropped.
\<close>

lemma fields_skipped_entry_removed_as_stale:
  "fields [''field''] (Some [ [(''foo'', ''bar'')], [(''baz'', ''qux'')] ])
   = Inr ([ [(''name'', ''field''), (''comment'', ''Created by echemdb-converters.'')] ],
          [warn_no_name, warn_added])"
  by (simp add: fields_def reconcile_def getitem_def dict_eq_def field_names_def
        field_name_def remove_field_def create_field_def generated_marker_def)

section \<open>The claims\<close>

text \<open>
  C1, at an input where it fails. The columns are \<open>t\<close> and \<open>any\<close>; the supplied list
  has two entries without a name and then an entry named \<open>t\<close>. The first loop removes
  the first entry and, the list having shrunk under its index, never visits the second.
  The schema library reports that entry under the name \<open>any\<close>, a column name, so the
  second loop keeps it and the third creates no field for the column: the entry stays in
  the schema, in front of the entry \<open>t\<close>. The claim asks for the entry \<open>t\<close> followed
  by a created field \<open>any\<close>.
\<close>

theorem fields_skipped_nameless_entry_breaks_schema:
  "fields [''t'', ''any'']
     (Some [ [(''foo'', ''bar'')], [(''baz'', ''qux'')], [(''name'', ''t''), (''unit'', ''s'')] ])
   = Inr ([ [(''baz'', ''qux'')], [(''name'', ''t''), (''unit'', ''s'')] ], [warn_no_name])"
  by (simp add: fields_def reconcile_def getitem_def dict_eq_def field_names_def
        field_name_def remove_field_def)

text \<open>
  C2, at an input where it fails. Two entries without a name, one after the other, and a
  column called \<open>any\<close>, the name under which the schema library reports an entry that
  has neither a name nor a type. The first loop removes the first entry and never visits
  the second; one warning is logged, not two. The second entry then counts as the field
  of the column and is the whole schema.
\<close>

theorem fields_consecutive_nameless_entry_survives:
  "fields [''any''] (Some [ [(''foo'', ''bar'')], [(''baz'', ''qux'')] ])
   = Inr ([ [(''baz'', ''qux'')] ], [warn_no_name])"
  by (simp add: fields_def reconcile_def getitem_def dict_eq_def field_names_def
        field_name_def remove_field_def)

text \<open>
  C3. With no field list, the schema has one field for each column name, in column order,
  and each field is the name and the generated comment, nothing else. Nothing is logged.
\<close>

theorem fields_none_synthesized:
  "fields cols None =
     Inr (map (\<lambda>c. [(''name'', c), (''comment'', ''Created by echemdb-converters.'')]) cols, [])"
  by (simp add: fields_def create_fields_def create_field_def generated_marker_def)

text \<open>
  C4, as stated, fails: not every anomaly is reported in the log. The columns are \<open>t\<close>
  alone; the supplied entries are \<open>t\<close> and \<open>x\<close>. The entry \<open>x\<close> is dropped as stale
  and nothing at all is logged: the second loop has no call of the logger.
\<close>

theorem fields_stale_entry_dropped_silently_counterexample:
  "fields [''t''] (Some [ [(''name'', ''t'')], [(''name'', ''x'')] ])
   = Inr ([ [(''name'', ''t'')] ], [])"
  by (simp add: fields_def reconcile_def getitem_def dict_eq_def field_names_def
        field_name_def remove_field_def)

text \<open>
  C4, amended. \<open>fields\<close> never raises: for every field list, supplied or not, and all
  column names it returns a schema. Without a field list, or with an empty one, it logs
  nothing. Otherwise, with \<open>xs1\<close> the list its first loop leaves, it logs the warning
  about a missing name once for each entry that loop has removed, all of them entries
  without a name, and then the warning about an added field once for each field it
  creates, one for each column name that no kept field carries. Dropping a stale entry
  is not logged.
\<close>

theorem fields_never_raises:
  "\<exists>xs lg. fields cols fo = Inr (xs, lg) \<and>
     (case fo of
        None \<Rightarrow> lg = []
      | Some fs \<Rightarrow>
          if fs = [] then lg = []
          else (\<exists>xs1 ms.
                  remove_nameless 0 fs = Inr (xs1, replicate (length fs - length xs1) warn_no_name)
                \<and> filter has_name xs1 = filter has_name fs
                \<and> distinct ms
                \<and> set ms = set cols - set (field_names (filter (\<lambda>f. field_name f \<in> set cols) xs1))
                \<and> xs = filter (\<lambda>f. field_name f \<in> set cols) xs1 @ map create_field ms
                \<and> lg = replicate (length fs - length xs1) warn_no_name
                       @ replicate (length ms) warn_added))"
proof (cases fo)
  case None
  then show ?thesis by (simp add: fields_def)
next
  case (Some fs)
  show ?thesis
  proof (cases "fs = []")
    case True
    with Some show ?thesis by (simp add: fields_def)
  next
    case False
    from reconcile_total [of fs cols] obtain xs1 ms where
      h: "remove_nameless 0 fs = Inr (xs1, replicate (length fs - length xs1) warn_no_name)"
         "filter has_name xs1 = filter has_name fs"
         "distinct ms"
         "set ms = set cols - set (field_names (filter (\<lambda>f. field_name f \<in> set cols) xs1))"
         "reconcile cols fs =
           Inr (filter (\<lambda>f. field_name f \<in> set cols) xs1 @ map create_field ms,
                replicate (length fs - length xs1) warn_no_name @ replicate (length ms) warn_added)"
      by blast
    have "fields cols fo =
           Inr (filter (\<lambda>f. field_name f \<in> set cols) xs1 @ map create_field ms,
                replicate (length fs - length xs1) warn_no_name @ replicate (length ms) warn_added)"
      using Some False h(5) by (simp add: fields_def)
    moreover have "\<exists>xs1' ms'.
                  remove_nameless 0 fs = Inr (xs1', replicate (length fs - length xs1') warn_no_name)
                \<and> filter has_name xs1' = filter has_name fs
                \<and> distinct ms'
                \<and> set ms' = set cols - set (field_names (filter (\<lambda>f. field_name f \<in> set cols) xs1'))
                \<and> filter (\<lambda>f. field_name f \<in> set cols) xs1 @ map create_field ms
                    = filter (\<lambda>f. field_name f \<in> set cols) xs1' @ map create_field ms'
                \<and> replicate (length fs - length xs1) warn_no_name @ replicate (length ms) warn_added
                    = replicate (length fs - length xs1') warn_no_name
                       @ replicate (length ms') warn_added"
      using h(1-4) by blast
    ultimately show ?thesis using Some False by simp
  qed
qed

text \<open>
  C5. Asking for the fields twice in a row, on a store where the packager's field list is
  allocated, returns both times a list with the same items and logs the same warnings;
  the second request leaves the first result as it was; and every list object that was
  there before the first request, the stored field list among them, is unchanged after
  each request.
\<close>

theorem fields_obj_twice:
  assumes "valid_packager p h"
  shows "\<exists>r1 r2 lg h1 h2.
           fields_obj cols p h = (Inr (r1, lg), h1)
         \<and> fields_obj cols p h1 = (Inr (r2, lg), h2)
         \<and> h2 ! r2 = h1 ! r1 \<and> h2 ! r1 = h1 ! r1
         \<and> take (length h) h1 = h \<and> take (length h) h2 = h"
proof -
  from fields_obj_value [OF assms, of cols] obtain xs lg where
    v: "fields cols (map_option ((!) h) (p_fields p)) = Inr (xs, lg)"
    and o: "fields_obj cols p h = (Inr (length h, lg), h @ [xs])" by blast
  have valid': "valid_packager p (h @ [xs])"
    using assms by (auto simp: valid_packager_def split: option.splits)
  have same: "map_option ((!) (h @ [xs])) (p_fields p) = map_option ((!) h) (p_fields p)"
    using assms by (cases "p_fields p") (auto simp: valid_packager_def nth_append)
  from fields_obj_value [OF valid', of cols] v same
  have o': "fields_obj cols p (h @ [xs]) = (Inr (length (h @ [xs]), lg), (h @ [xs]) @ [xs])"
    by auto
  have "((h @ [xs]) @ [xs]) ! length (h @ [xs]) = (h @ [xs]) ! length h"
    by (simp only: nth_append_length)
  moreover have "((h @ [xs]) @ [xs]) ! length h = (h @ [xs]) ! length h"
    by (simp add: nth_append)
  moreover have "take (length h) (h @ [xs]) = h" "take (length h) ((h @ [xs]) @ [xs]) = h"
    by simp_all
  ultimately show ?thesis using o o' by blast
qed

theorem fields_obj_twice_witness:
  "valid_packager \<lparr>p_file = ''t,E'', p_metadata = [], p_fields = Some 0\<rparr>
      [ [ [(''name'', ''E'')], [(''foo'', ''bar'')] ] ]
   \<and> (\<exists>r1 r2 lg h1 h2.
         fields_obj [''t'', ''E''] \<lparr>p_file = ''t,E'', p_metadata = [], p_fields = Some 0\<rparr>
            [ [ [(''name'', ''E'')], [(''foo'', ''bar'')] ] ] = (Inr (r1, lg), h1)
       \<and> fields_obj [''t'', ''E''] \<lparr>p_file = ''t,E'', p_metadata = [], p_fields = Some 0\<rparr> h1
            = (Inr (r2, lg), h2)
       \<and> h2 ! r2 = h1 ! r1 \<and> h2 ! r1 = h1 ! r1
       \<and> take (length [ [ [(''name'', ''E'')], [(''foo'', ''bar'')] ] ]) h1
            = [ [ [(''name'', ''E'')], [(''foo'', ''bar'')] ] ]
       \<and> take (length [ [ [(''name'', ''E'')], [(''foo'', ''bar'')] ] ]) h2
            = [ [ [(''name'', ''E'')], [(''foo'', ''bar'')] ] ])"
proof -
  have v: "valid_packager \<lparr>p_file = ''t,E'', p_metadata = [], p_fields = Some 0\<rparr>
      [ [ [(''name'', ''E'')], [(''foo'', ''bar'')] ] ]"
    by (simp add: valid_packager_def)
  from v fields_obj_twice [OF v, of "[''t'', ''E'']"] show ?thesis
    by (rule conjI)
qed

text \<open>
  C6. On the base class the property \<open>decimal\<close> raises \<open>NotImplementedError\<close> whatever
  the packager holds; a device variant that declares a literal separator returns that
  literal whatever the packager holds.
\<close>

theorem decimal_generic_fails_device_literal:
  "decimal p = Inl NotImplementedError \<and> device_decimal sep p = Inr sep"
  by (simp add: decimal_def device_decimal_def)

text \<open>
  C7. \<open>get_packager\<close> returns the registered class for the identifier \<open>eclab\<close>, the
  only one registered, and for every other identifier string raises a \<open>KeyError\<close> whose
  message holds the identifier between apostrophes.
\<close>

theorem get_packager_lookup:
  "get_packager eclab (Some ''eclab'') = Inr eclab
   \<and> (d \<noteq> ''eclab'' \<longrightarrow>
        get_packager eclab (Some d) =
          Inl (KeyError (''Device wth name '' @ [CHR 0x27] @ d @ [CHR 0x27]
                 @ '' is unknown to the packager'' @ [CHR 0x27] @ ''.'')))"
  by (simp add: get_packager_def)

theorem get_packager_lookup_witness:
  "''biologic'' \<noteq> ''eclab''
   \<and> get_packager ''ECLabPackager'' (Some ''biologic'') =
       Inl (KeyError (''Device wth name '' @ [CHR 0x27] @ ''biologic'' @ [CHR 0x27]
              @ '' is unknown to the packager'' @ [CHR 0x27] @ ''.''))"
  using get_packager_lookup [of "''ECLabPackager''" "''biologic''"] by simp

text \<open>
  C8. The property \<open>delimiter\<close> is the sniffer applied to the first two characters of
  the data block, the text after the header lines and after the line of column names. On
  the base class, which has no header lines, that is the text after the first line.
\<close>

theorem delimiter_sniffs_data_block:
  "delimiter sniff hl p = sniff (take 2 (data_block_spec hl (p_file p)))
   \<and> delimiter sniff (header_lines p) p = sniff (take 2 (drop_line (p_file p)))"
proof -
  have "\<And>hl. data hl p = concat (readlines ((drop_line ^^ (hl + 1)) (p_file p)))"
    by (simp only: data_def readlines_drop_lines)
  then have "\<And>hl. data hl p = data_block_spec hl (p_file p)"
    by (simp only: concat_readlines data_block_spec_def)
  then have "\<And>hl. delimiter sniff hl p = sniff (take 2 (data_block_spec hl (p_file p)))"
    by (simp add: delimiter_def)
  then show ?thesis by (simp add: header_lines_def data_block_spec_def)
qed

text \<open>
  C9, as stated, fails: the table is not computed at most once. Two accesses to \<open>df\<close>
  on one packager make two calls of the loader. (The loader here returns its arguments.)
\<close>

theorem df_parsed_at_every_access_counterexample:
  "\<not> length (snd (df Pair 0 \<lparr>p_file = ''a,b'', p_metadata = [], p_fields = None\<rparr>
                 (snd (df Pair 0 \<lparr>p_file = ''a,b'', p_metadata = [], p_fields = None\<rparr> [])))) \<le> 1"
  by (simp add: df_def)

text \<open>
  C9, amended. Nothing is cached: every access to the table, and every access to the
  column names, calls the loader once more, on the same stored text and header line
  count, and so returns the same value as the access before.
\<close>

theorem df_parses_at_every_access:
  "(case df read_csv hl p tr of
      (t1, tr1) \<Rightarrow>
        (case df read_csv hl p tr1 of
           (t2, tr2) \<Rightarrow>
             t2 = t1 \<and> tr2 = tr @ [ReadCsv (p_file p) hl, ReadCsv (p_file p) hl]))
   \<and> (case column_names columns read_csv hl p tr of
        (c1, tr1) \<Rightarrow>
          (case column_names columns read_csv hl p tr1 of
             (c2, tr2) \<Rightarrow>
               c2 = c1 \<and> tr2 = tr @ [ReadCsv (p_file p) hl, ReadCsv (p_file p) hl]))"
  by (simp add: df_def column_names_def)

text \<open>
  C10. An empty field list is treated as no field list: \<open>fields\<close> returns the same as
  for \<open>None\<close>, one field for each column name, in column order, each the name and the
  generated comment, and logs nothing; and a packager constructed with a reference to an
  empty list returns a new list with exactly those fields, as one constructed without a
  field list does.
\<close>

theorem fields_empty_list_as_none:
  "fields cols (Some []) = fields cols None
   \<and> fields cols (Some []) =
       Inr (map (\<lambda>c. [(''name'', c), (''comment'', ''Created by echemdb-converters.'')]) cols, [])
   \<and> (h ! a = [] \<longrightarrow>
        fields_obj cols (init text md (Some a)) h = fields_obj cols (init text md None) h
      \<and> fields_obj cols (init text md (Some a)) h =
          (Inr (length h, []),
           h @ [map (\<lambda>c. [(''name'', c), (''comment'', ''Created by echemdb-converters.'')]) cols]))"
  by (simp add: fields_def fields_obj_def init_def new_list_def create_fields_def
        create_field_def generated_marker_def)

theorem fields_empty_list_as_none_witness:
  "[ [] ] ! 0 = ([] :: field list)
   \<and> fields_obj [''t'', ''E''] (init ''t,E'' None (Some 0)) [ [] ]
       = fields_obj [''t'', ''E''] (init ''t,E'' None None) [ [] ]
   \<and> fields_obj [''t'', ''E''] (init ''t,E'' None (Some 0)) [ [] ]
       = (Inr (length [ ([] :: field list) ], []),
          [ [] ] @ [map (\<lambda>c. [(''name'', c), (''comment'', ''Created by echemdb-converters.'')])
                      [''t'', ''E''] ])"
proof -
  have e: "[ [] ] ! 0 = ([] :: field list)" by simp
  from e fields_empty_list_as_none [of "[''t'', ''E'']" "[ [] ]" 0 "''t,E''" None]
  show ?thesis by blast
qed

end
